theory Spec2Isabelle
  imports Complex_Main "HOL-Library.Char_ord" "HOL-Library.List_Lexorder" "HOL-Library.Stream"
begin

section \<open>Data model (app/models.py, app/config.py)\<close>

text \<open>
  Python floats are modelled as exact rationals: every comparison, sum and product below is
  the mathematical one. Python's \<^verbatim>\<open>round(x, 2)\<close> rounds the exact value of \<open>x\<close> to the
  nearest multiple of 0.01, ties to the even one.
\<close>

datatype DeploymentDecision = AUTO_APPROVE | MANUAL_REVIEW | BLOCK_DEPLOYMENT

datatype error = ValueError | ValidationError

record ServiceMetrics =
  service_name :: string
  dependency_impact_score :: rat
  rollback_rate :: rat
  change_frequency :: rat
  error_spike_history :: rat
  latency_instability :: rat
  risk_score :: rat
  decision :: DeploymentDecision

record SimulationSummary =
  average_risk :: rat
  highest_risk_service :: string
  highest_risk_score :: rat
  blocked_services :: "string list"
  blocked_count :: nat
  timestamp_utc :: nat

record HistoricalRecord =
  hr_summary :: SimulationSummary
  hr_services :: "ServiceMetrics list"

record Settings =
  service_names :: "string list"
  dependency_candidates :: "(string \<times> string list) list"
  history_limit :: int

text \<open>The validator of \<^verbatim>\<open>Settings.history_limit\<close>.\<close>

definition validate_history_limit :: "int \<Rightarrow> error + int" where
  "validate_history_limit v =
     (if v < 1 then Inl ValueError else if v > 20 then Inl ValueError else Inr v)"

section \<open>Rounding, clamping and classification (app/risk_engine.py)\<close>

definition round_half_even :: "rat \<Rightarrow> int" where
  "round_half_even x =
     (let f = \<lfloor>x\<rfloor>; d = x - of_int f
      in if d < 1 / 2 then f else if 1 / 2 < d then f + 1
         else if even f then f else f + 1)"

definition round2 :: "rat \<Rightarrow> rat" where
  "round2 x = of_int (round_half_even (x * 100)) / 100"

definition clamp_0_100 :: "rat \<Rightarrow> rat" where
  "clamp_0_100 x = min (max x 0) 100"

definition classify_risk :: "rat \<Rightarrow> DeploymentDecision" where
  "classify_risk score =
     (if score < 40 then AUTO_APPROVE
      else if score < 70 then MANUAL_REVIEW
      else BLOCK_DEPLOYMENT)"

definition normalise_to_percentage :: "rat \<Rightarrow> rat" where
  "normalise_to_percentage v =
     (if v < 0 then 0 else if v > 1 then 100 else v * 100)"

section \<open>History ledger (app/storage.py, RiskEngine.update_history)\<close>

text \<open>The Python slice \<^verbatim>\<open>xs[-n:]\<close> for any integer \<open>n\<close>.\<close>

definition py_slice_from_neg :: "int \<Rightarrow> 'a list \<Rightarrow> 'a list" where
  "py_slice_from_neg n xs =
     (let len = int (length xs);
          start = (if - n < 0 then max 0 (len - n) else min (- n) len)
      in drop (nat start) xs)"

definition record_history :: "int \<Rightarrow> 'a list \<Rightarrow> 'a \<Rightarrow> 'a list" where
  "record_history limit history entry =
     (let h = history @ [entry]
      in if int (length h) > limit then py_slice_from_neg limit h else h)"

definition update_history :: "Settings \<Rightarrow> HistoricalRecord list \<Rightarrow> HistoricalRecord
    \<Rightarrow> HistoricalRecord list" where
  "update_history settings history new_entry =
     (let new_history = history @ [new_entry]
      in if int (length new_history) > history_limit settings
         then py_slice_from_neg (history_limit settings) new_history
         else new_history)"

section \<open>The random source (numpy.random.Generator)\<close>

text \<open>
  The generator is a stream of rationals that each draw consumes from the front; a draw uses
  the fractional part of the stream's head, a number in \<open>[0, 1)\<close>, and maps it into the
  requested range. Seeding fixes the stream. Every outcome a draw of the library can have is
  the outcome of the draw on some stream.
\<close>

type_synonym rng = "rat stream"

definition next_unit :: "rng \<Rightarrow> rat \<times> rng" where
  "next_unit g = (frac (shd g), stl g)"

text \<open>\<^verbatim>\<open>rng.integers(low, high)\<close>, called with \<open>low < high\<close> only: an integer in \<open>[low, high)\<close>.\<close>

definition rng_integers :: "int \<Rightarrow> int \<Rightarrow> rng \<Rightarrow> int \<times> rng" where
  "rng_integers low high g =
     (let (u, g') = next_unit g in (low + \<lfloor>u * of_int (high - low)\<rfloor>, g'))"

text \<open>\<^verbatim>\<open>rng.uniform(low, high)\<close>: a number in \<open>[low, high)\<close>.\<close>

definition rng_uniform :: "rat \<Rightarrow> rat \<Rightarrow> rng \<Rightarrow> rat \<times> rng" where
  "rng_uniform low high g =
     (let (u, g') = next_unit g in (low + (high - low) * u, g'))"

text \<open>\<^verbatim>\<open>rng.choice(xs)\<close>: one element of \<open>xs\<close>; an empty \<open>xs\<close> raises ValueError.\<close>

definition rng_choice :: "'a list \<Rightarrow> rng \<Rightarrow> error + ('a \<times> rng)" where
  "rng_choice xs g =
     (if xs = [] then Inl ValueError
      else let (u, g') = next_unit g
           in Inr (xs ! nat \<lfloor>u * of_nat (length xs)\<rfloor>, g'))"

text \<open>
  \<^verbatim>\<open>rng.choice(xs, size=k, replace=False)\<close>: \<open>k\<close> elements at distinct positions of \<open>xs\<close>;
  a \<open>k\<close> above the length of \<open>xs\<close> raises ValueError.
\<close>

fun sample_positions :: "'a list \<Rightarrow> nat \<Rightarrow> rng \<Rightarrow> 'a list \<times> rng" where
  "sample_positions xs 0 g = ([], g)"
| "sample_positions xs (Suc k) g =
     (if xs = [] then ([], g)
      else let (u, g') = next_unit g;
               i = nat \<lfloor>u * of_nat (length xs)\<rfloor>;
               (rest, g'') = sample_positions (take i xs @ drop (Suc i) xs) k g'
           in (xs ! i # rest, g''))"

definition rng_choice_no_replace :: "'a list \<Rightarrow> nat \<Rightarrow> rng \<Rightarrow> error + ('a list \<times> rng)" where
  "rng_choice_no_replace xs k g =
     (if length xs < k then Inl ValueError else Inr (sample_positions xs k g))"

section \<open>The directed graph (networkx.DiGraph)\<close>

text \<open>
  Nodes and edges in insertion order, each stored once, as the library's dictionaries keep
  them. \<^verbatim>\<open>graph.edges()\<close> lists the edges node by node, in node order.
\<close>

record DiGraph =
  nodes :: "string list"
  edge_list :: "(string \<times> string) list"

definition empty_graph :: DiGraph where
  "empty_graph = \<lparr>nodes = [], edge_list = []\<rparr>"

definition add_node :: "string \<Rightarrow> DiGraph \<Rightarrow> DiGraph" where
  "add_node n g = (if n \<in> set (nodes g) then g else g\<lparr>nodes := nodes g @ [n]\<rparr>)"

definition add_nodes_from :: "string list \<Rightarrow> DiGraph \<Rightarrow> DiGraph" where
  "add_nodes_from ns g = foldl (\<lambda>g n. add_node n g) g ns"

definition add_edge :: "string \<Rightarrow> string \<Rightarrow> DiGraph \<Rightarrow> DiGraph" where
  "add_edge u v g =
     (let g' = add_node v (add_node u g)
      in if (u, v) \<in> set (edge_list g') then g'
         else g'\<lparr>edge_list := edge_list g' @ [(u, v)]\<rparr>)"

definition graph_edges :: "DiGraph \<Rightarrow> (string \<times> string) list" where
  "graph_edges g = concat (map (\<lambda>u. filter (\<lambda>e. fst e = u) (edge_list g)) (nodes g))"

definition in_degree :: "DiGraph \<Rightarrow> string \<Rightarrow> nat" where
  "in_degree g n = length (filter (\<lambda>e. snd e = n) (edge_list g))"

definition out_degree :: "DiGraph \<Rightarrow> string \<Rightarrow> nat" where
  "out_degree g n = length (filter (\<lambda>e. fst e = n) (edge_list g))"

text \<open>\<^verbatim>\<open>nx.isolates\<close>: the nodes of degree zero, in node order.\<close>

definition isolates :: "DiGraph \<Rightarrow> string list" where
  "isolates g = filter (\<lambda>n. in_degree g n + out_degree g n = 0) (nodes g)"

section \<open>Graph generator (RiskEngine._generate_dependency_graph)\<close>

text \<open>\<^verbatim>\<open>d.get(k, dflt)\<close> on a dictionary kept as the list of its items.\<close>

definition dict_get :: "(string \<times> 'v) list \<Rightarrow> string \<Rightarrow> 'v \<Rightarrow> 'v" where
  "dict_get d k dflt = (case map_of d k of None \<Rightarrow> dflt | Some v \<Rightarrow> v)"

text \<open>The inner loop over the chosen candidates of one service.\<close>

definition add_chosen :: "string \<Rightarrow> string list \<Rightarrow> DiGraph \<Rightarrow> DiGraph" where
  "add_chosen service chosen graph =
     foldl (\<lambda>g dependency. if dependency \<noteq> service then add_edge dependency service g else g)
       graph chosen"

text \<open>The body of the loop over the services.\<close>

definition draw_edges :: "Settings \<Rightarrow> string \<Rightarrow> DiGraph \<Rightarrow> rng \<Rightarrow> error + (DiGraph \<times> rng)" where
  "draw_edges settings service graph g =
     (let candidates = dict_get (dependency_candidates settings) service []
      in if candidates = [] then Inr (graph, g)
         else let max_edges = max 1 (length candidates div 2);
                  (edge_count, g1) = rng_integers 0 (int max_edges + 1) g
              in if edge_count = 0 then Inr (add_chosen service [] graph, g1)
                 else case rng_choice_no_replace candidates (nat edge_count) g1 of
                        Inl e \<Rightarrow> Inl e
                      | Inr (chosen, g2) \<Rightarrow> Inr (add_chosen service chosen graph, g2))"

fun draw_all_edges :: "Settings \<Rightarrow> string list \<Rightarrow> DiGraph \<Rightarrow> rng \<Rightarrow> error + (DiGraph \<times> rng)" where
  "draw_all_edges settings [] graph g = Inr (graph, g)"
| "draw_all_edges settings (service # rest) graph g =
     (case draw_edges settings service graph g of
        Inl e \<Rightarrow> Inl e
      | Inr (graph', g') \<Rightarrow> draw_all_edges settings rest graph' g')"

text \<open>The repair loop over the nodes that were isolated when the first loop ended.\<close>

fun repair_isolated :: "string list \<Rightarrow> string list \<Rightarrow> DiGraph \<Rightarrow> rng \<Rightarrow> error + (DiGraph \<times> rng)" where
  "repair_isolated names [] graph g = Inr (graph, g)"
| "repair_isolated names (node # rest) graph g =
     (case rng_choice (filter (\<lambda>n. n \<noteq> node) names) g of
        Inl e \<Rightarrow> Inl e
      | Inr (other, g') \<Rightarrow> repair_isolated names rest (add_edge other node graph) g')"

definition generate_dependency_graph :: "Settings \<Rightarrow> rng \<Rightarrow> error + (DiGraph \<times> rng)" where
  "generate_dependency_graph settings g =
     (let graph = add_nodes_from (service_names settings) empty_graph
      in case draw_all_edges settings (service_names settings) graph g of
           Inl e \<Rightarrow> Inl e
         | Inr (graph1, g1) \<Rightarrow>
             repair_isolated (service_names settings) (isolates graph1) graph1 g1)"

section \<open>History feedback (RiskEngine._collect_blocked_services)\<close>

definition collect_blocked_services :: "HistoricalRecord list \<Rightarrow> string set" where
  "collect_blocked_services history =
     (if history = [] then {}
      else let latest = last history
           in set (map service_name
                (filter (\<lambda>metrics. decision metrics = BLOCK_DEPLOYMENT) (hr_services latest))))"

section \<open>Metric synthesis and risk aggregation\<close>

text \<open>The dictionary \<^verbatim>\<open>metrics\<close> handed to \<^verbatim>\<open>_build_service_metrics\<close>, with its five keys.\<close>

record metrics_dict =
  m_dependency_impact_score :: rat
  m_rollback_rate :: rat
  m_change_frequency :: rat
  m_error_spike_history :: rat
  m_latency_instability :: rat

definition in_percent_range :: "rat \<Rightarrow> bool" where
  "in_percent_range x = (0 \<le> x \<and> x \<le> 100)"

text \<open>The field constraints \<^verbatim>\<open>ge=0, le=100\<close> that constructing a \<^verbatim>\<open>ServiceMetrics\<close> checks.\<close>

definition new_ServiceMetrics :: "ServiceMetrics \<Rightarrow> error + ServiceMetrics" where
  "new_ServiceMetrics m =
     (if in_percent_range (dependency_impact_score m) \<and> in_percent_range (rollback_rate m)
         \<and> in_percent_range (change_frequency m) \<and> in_percent_range (error_spike_history m)
         \<and> in_percent_range (latency_instability m) \<and> in_percent_range (risk_score m)
      then Inr m else Inl ValidationError)"

definition weighted_sum :: "rat \<Rightarrow> rat \<Rightarrow> rat \<Rightarrow> rat \<Rightarrow> rat \<Rightarrow> rat" where
  "weighted_sum dep rb cf es li =
     4 / 10 * dep + 2 / 10 * rb + 15 / 100 * cf + 15 / 100 * es + 1 / 10 * li"

definition build_service_metrics :: "string \<Rightarrow> metrics_dict \<Rightarrow> error + ServiceMetrics" where
  "build_service_metrics service metrics =
     (let dependency_score = m_dependency_impact_score metrics;
          rollback = m_rollback_rate metrics;
          change = m_change_frequency metrics;
          error_spike = m_error_spike_history metrics;
          latency = m_latency_instability metrics;
          risk = weighted_sum dependency_score rollback change error_spike latency;
          risk' = round2 (clamp_0_100 risk);
          decision' = classify_risk risk'
      in new_ServiceMetrics
           \<lparr>service_name = service,
            dependency_impact_score = round2 dependency_score,
            rollback_rate = round2 rollback,
            change_frequency = round2 change,
            error_spike_history = round2 error_spike,
            latency_instability = round2 latency,
            risk_score = risk',
            decision = decision'\<rparr>)"

text \<open>
  \<^verbatim>\<open>max(in_degrees.values()) if in_degrees else 1\<close>; the degrees are naturals, so the left fold
  from 0 is their maximum when there is a node.
\<close>

definition max_in_degree :: "DiGraph \<Rightarrow> nat" where
  "max_in_degree g =
     (if nodes g = [] then 1 else foldl max 0 (map (in_degree g) (nodes g)))"

text \<open>
  The dependency impact of one node. The betweenness centrality comes from the graph
  library and is the parameter \<open>bc\<close>.
\<close>

definition dependency_score_of :: "(DiGraph \<Rightarrow> string \<Rightarrow> rat) \<Rightarrow> DiGraph \<Rightarrow> string \<Rightarrow> rat" where
  "dependency_score_of bc graph service =
     normalise_to_percentage
       (6 / 10 * bc graph service
        + 4 / 10 * (if max_in_degree graph \<noteq> 0
                    then of_nat (in_degree graph service) / of_nat (max_in_degree graph)
                    else 0))"

text \<open>The rollback signal of one node from its raw draw, before it is rounded.\<close>

definition rollback_signal :: "string set \<Rightarrow> string \<Rightarrow> rat \<Rightarrow> rat" where
  "rollback_signal blocked_lookup service raw =
     (let rollback = (if service \<in> blocked_lookup then raw * (85 / 100) else raw)
      in normalise_to_percentage (rollback / 100))"

text \<open>The body of the loop over the nodes: four draws, then the record.\<close>

definition service_metrics_of ::
  "(DiGraph \<Rightarrow> string \<Rightarrow> rat) \<Rightarrow> DiGraph \<Rightarrow> string set \<Rightarrow> string \<Rightarrow> rng
    \<Rightarrow> error + (ServiceMetrics \<times> rng)" where
  "service_metrics_of bc graph blocked_lookup service g =
     (let dependency_score = dependency_score_of bc graph service;
          (raw, g1) = rng_uniform 0 100 g;
          (change, g2) = rng_uniform 0 100 g1;
          (error_spike, g3) = rng_uniform 0 100 g2;
          (latency, g4) = rng_uniform 0 100 g3;
          metrics = \<lparr>m_dependency_impact_score = dependency_score,
                     m_rollback_rate = rollback_signal blocked_lookup service raw,
                     m_change_frequency = round2 change,
                     m_error_spike_history = round2 error_spike,
                     m_latency_instability = round2 latency\<rparr>
      in case build_service_metrics service metrics of
           Inl e \<Rightarrow> Inl e
         | Inr final_metrics \<Rightarrow> Inr (final_metrics, g4))"

fun metrics_loop ::
  "(DiGraph \<Rightarrow> string \<Rightarrow> rat) \<Rightarrow> DiGraph \<Rightarrow> string set \<Rightarrow> string list \<Rightarrow> rng
    \<Rightarrow> error + (ServiceMetrics list \<times> rng)" where
  "metrics_loop bc graph blocked_lookup [] g = Inr ([], g)"
| "metrics_loop bc graph blocked_lookup (service # rest) g =
     (case service_metrics_of bc graph blocked_lookup service g of
        Inl e \<Rightarrow> Inl e
      | Inr (m, g') \<Rightarrow>
          (case metrics_loop bc graph blocked_lookup rest g' of
             Inl e \<Rightarrow> Inl e
           | Inr (ms, g'') \<Rightarrow> Inr (m # ms, g'')))"

definition generate_service_metrics ::
  "(DiGraph \<Rightarrow> string \<Rightarrow> rat) \<Rightarrow> DiGraph \<Rightarrow> string set \<Rightarrow> rng
    \<Rightarrow> error + (ServiceMetrics list \<times> rng)" where
  "generate_service_metrics bc graph blocked g =
     (let blocked_lookup = blocked
      in case metrics_loop bc graph blocked_lookup (nodes graph) g of
        Inl e \<Rightarrow> Inl e
         | Inr (ms, g') \<Rightarrow> Inr (sort_key service_name ms, g'))"

section \<open>Summary builder (RiskEngine._summarise_services)\<close>

text \<open>
  Python's \<^verbatim>\<open>max(xs, key=f)\<close>: the first element whose key no later element exceeds;
  ValueError on an empty list.
\<close>

definition py_max_by :: "('a \<Rightarrow> rat) \<Rightarrow> 'a list \<Rightarrow> error + 'a" where
  "py_max_by key xs =
     (case xs of
        [] \<Rightarrow> Inl ValueError
      | x # rest \<Rightarrow> Inr (foldl (\<lambda>best y. if key best < key y then y else best) x rest))"

definition new_SimulationSummary :: "SimulationSummary \<Rightarrow> error + SimulationSummary" where
  "new_SimulationSummary s =
     (if in_percent_range (average_risk s) \<and> in_percent_range (highest_risk_score s)
      then Inr s else Inl ValidationError)"

definition summarise_services :: "nat \<Rightarrow> ServiceMetrics list \<Rightarrow> error + SimulationSummary" where
  "summarise_services now svcs =
     (let risks = map risk_score svcs;
          average = (if risks \<noteq> [] then round2 (sum_list risks / of_nat (length risks)) else 0)
      in case py_max_by risk_score svcs of
           Inl e \<Rightarrow> Inl e
         | Inr highest \<Rightarrow>
             (let blocked = map service_name
                    (filter (\<lambda>svc. decision svc = BLOCK_DEPLOYMENT) svcs)
              in new_SimulationSummary
                   \<lparr>average_risk = average,
                    highest_risk_service = service_name highest,
                    highest_risk_score = risk_score highest,
                    blocked_services = blocked,
                    blocked_count = length blocked,
                    timestamp_utc = now\<rparr>))"

section \<open>A run (RiskEngine.run_simulation)\<close>

record GraphEdge =
  source :: string
  target :: string

record SimulationResult =
  summary :: SimulationSummary
  services :: "ServiceMetrics list"
  edges :: "GraphEdge list"

text \<open>
  The two library functions a run calls that are pure: the betweenness centrality of the
  graph library (\<^verbatim>\<open>nx.betweenness_centrality\<close>) and the generator a seed stands for
  (\<^verbatim>\<open>np.random.default_rng(seed)\<close>).
\<close>

record Libraries =
  betweenness_centrality :: "DiGraph \<Rightarrow> string \<Rightarrow> rat"
  default_rng :: "int \<Rightarrow> rng"

text \<open>
  What a run reads from outside the program: the stream of an unseeded generator and the
  clock.
\<close>

record World =
  os_entropy :: rng
  utc_now :: nat

definition run_simulation ::
  "Libraries \<Rightarrow> Settings \<Rightarrow> World \<Rightarrow> HistoricalRecord list \<Rightarrow> int option
    \<Rightarrow> error + SimulationResult" where
  "run_simulation lib settings world history seed =
     (let g = (case seed of None \<Rightarrow> os_entropy world | Some s \<Rightarrow> default_rng lib s)
      in case generate_dependency_graph settings g of
           Inl e \<Rightarrow> Inl e
         | Inr (graph, g1) \<Rightarrow>
             (let blocked = collect_blocked_services history
              in case generate_service_metrics (betweenness_centrality lib) graph blocked g1 of
                   Inl e \<Rightarrow> Inl e
                 | Inr (svcs, g2) \<Rightarrow>
                     (case summarise_services (utc_now world) svcs of
                        Inl e \<Rightarrow> Inl e
                      | Inr summ \<Rightarrow>
                          Inr \<lparr>summary = summ, services = svcs,
                               edges = map (\<lambda>(u, v). \<lparr>source = u, target = v\<rparr>)
                                         (graph_edges graph)\<rparr>)))"


section \<open>Storage (app/storage.py) and the deployment hook (app/main.py)\<close>

record SimulationStorage =
  st_history :: "HistoricalRecord list"
  st_latest_result :: "SimulationResult option"

definition new_storage :: SimulationStorage where
  "new_storage = \<lparr>st_history = [], st_latest_result = None\<rparr>"

definition storage_record ::
  "Settings \<Rightarrow> SimulationStorage \<Rightarrow> HistoricalRecord \<Rightarrow> SimulationResult option
    \<Rightarrow> SimulationStorage" where
  "storage_record settings st entry result =
     (let st1 = st\<lparr>st_history := record_history (history_limit settings) (st_history st) entry\<rparr>
      in case result of None \<Rightarrow> st1 | Some r \<Rightarrow> st1\<lparr>st_latest_result := Some r\<rparr>)"

definition storage_clear :: "SimulationStorage \<Rightarrow> SimulationStorage" where
  "storage_clear st = st\<lparr>st_history := [], st_latest_result := None\<rparr>"














section \<open>Notions used by the properties\<close>


text \<open>A node with an edge at it, a graph with no self-loop, a graph whose nodes outside \<open>S\<close>
  all have an edge.\<close>

definition incident :: "DiGraph \<Rightarrow> string \<Rightarrow> bool" where
  "incident g n = (\<exists>e \<in> set (edge_list g). fst e = n \<or> snd e = n)"

definition loop_free :: "DiGraph \<Rightarrow> bool" where
  "loop_free g = (\<forall>e \<in> set (edge_list g). fst e \<noteq> snd e)"

definition covered_except :: "string set \<Rightarrow> DiGraph \<Rightarrow> bool" where
  "covered_except S g = (\<forall>n \<in> set (nodes g). n \<in> S \<or> incident g n)"

text \<open>A sequence of \<^verbatim>\<open>record()\<close> calls on the storage.\<close>

definition record_all :: "Settings \<Rightarrow> SimulationStorage \<Rightarrow> HistoricalRecord list \<Rightarrow> SimulationStorage" where
  "record_all settings st entries = foldl (\<lambda>s e. storage_record settings s e None) st entries"

text \<open>What two runs are compared on: the per-service metrics and the edge list.\<close>

definition metrics_and_edges :: "SimulationResult \<Rightarrow> ServiceMetrics list \<times> GraphEdge list" where
  "metrics_and_edges result = (services result, edges result)"

section \<open>A worked run\<close>

text \<open>
  Three services; \<open>a\<close> may depend on \<open>b\<close>, and \<open>c\<close> has no candidate, so the repair pass
  has to connect it. The stream gives the draws in the order the run makes them: the edge
  count of \<open>a\<close>, its candidate, the repair partner of \<open>c\<close>, then four signals for each of
  the nodes \<open>b\<close>, \<open>a\<close>, \<open>c\<close>.
\<close>

definition example_settings :: Settings where
  "example_settings =
     \<lparr>service_names = [''b'', ''a'', ''c''], dependency_candidates = [(''a'', [''b''])],
      history_limit = 2\<rparr>"

definition example_signals :: rng where
  "example_signals =
     25003 / 50000 ## 1 / 10000 ## 0 ## 1 / 5000 ##
     99 / 100 ## 99 / 100 ## 99 / 100 ## 99 / 100 ##
     1 / 2 ## 1 / 2 ## 1 / 2 ## 1 / 2 ## sconst 0"

definition example_stream :: rng where
  "example_stream = 1 / 2 ## 0 ## 3 / 4 ## example_signals"

definition example_lib :: Libraries where
  "example_lib =
     \<lparr>betweenness_centrality = (\<lambda>g n. if n = ''a'' then 1 / 2 else 0),
      default_rng = (\<lambda>seed. example_stream)\<rparr>"

definition example_world :: World where
  "example_world = \<lparr>os_entropy = example_stream, utc_now = 7\<rparr>"

definition example_graph :: DiGraph where
  "example_graph =
     \<lparr>nodes = [''b'', ''a'', ''c''], edge_list = [(''b'', ''a''), (''a'', ''c'')]\<rparr>"

definition example_a :: ServiceMetrics where
  "example_a =
     \<lparr>service_name = ''a'', dependency_impact_score = 70, rollback_rate = 99,
      change_frequency = 99, error_spike_history = 99, latency_instability = 99,
      risk_score = 437 / 5, decision = BLOCK_DEPLOYMENT\<rparr>"

definition example_b :: ServiceMetrics where
  "example_b =
     \<lparr>service_name = ''b'', dependency_impact_score = 0, rollback_rate = 5001 / 100,
      change_frequency = 1 / 100, error_spike_history = 0, latency_instability = 1 / 50,
      risk_score = 10, decision = AUTO_APPROVE\<rparr>"

definition example_c :: ServiceMetrics where
  "example_c =
     \<lparr>service_name = ''c'', dependency_impact_score = 40, rollback_rate = 50,
      change_frequency = 50, error_spike_history = 50, latency_instability = 50,
      risk_score = 46, decision = MANUAL_REVIEW\<rparr>"

definition example_summary :: SimulationSummary where
  "example_summary =
     \<lparr>average_risk = 239 / 5, highest_risk_service = ''a'', highest_risk_score = 437 / 5,
      blocked_services = [''a''], blocked_count = 1, timestamp_utc = 7\<rparr>"

definition example_result :: SimulationResult where
  "example_result =
     \<lparr>summary = example_summary, services = [example_a, example_b, example_c],
      edges = [\<lparr>source = ''b'', target = ''a''\<rparr>, \<lparr>source = ''a'', target = ''c''\<rparr>]\<rparr>"

definition example_entry :: "nat \<Rightarrow> HistoricalRecord" where
  "example_entry t =
     \<lparr>hr_summary = example_summary\<lparr>timestamp_utc := t\<rparr>, hr_services = services example_result\<rparr>"



section \<open>Rounding\<close>

lemma floor_numeral_div:
  "\<lfloor>numeral a / numeral b :: rat\<rfloor> = numeral a div numeral b"
  using floor_divide_of_int_eq [of "numeral a" "numeral b", where ?'a = rat] by simp

lemma floor_one_div_numeral:
  "\<lfloor>1 / numeral b :: rat\<rfloor> = 1 div numeral b"
  using floor_divide_of_int_eq [of 1 "numeral b", where ?'a = rat] by simp


lemma round_half_even_of_int: "round_half_even (of_int k) = k"
  by (simp add: round_half_even_def Let_def)

lemma round_half_even_mono:
  assumes "x \<le> y" shows "round_half_even x \<le> round_half_even y"
proof (cases "\<lfloor>x\<rfloor> = \<lfloor>y\<rfloor>")
  case True
  with assms show ?thesis by (auto simp: round_half_even_def Let_def)
next
  case False
  with assms have "\<lfloor>x\<rfloor> + 1 \<le> \<lfloor>y\<rfloor>" using floor_mono [OF assms] by linarith
  moreover have "round_half_even x \<le> \<lfloor>x\<rfloor> + 1" by (auto simp: round_half_even_def Let_def)
  moreover have "\<lfloor>y\<rfloor> \<le> round_half_even y" by (auto simp: round_half_even_def Let_def)
  ultimately show ?thesis by linarith
qed


lemma round2_mono: "x \<le> y \<Longrightarrow> round2 x \<le> round2 y"
  using round_half_even_mono [of "x * 100" "y * 100"] by (simp add: round2_def divide_right_mono)

lemma round2_of_int: "round2 (of_int k) = of_int k"
proof -
  have "round_half_even (of_int k * 100) = k * 100"
    using round_half_even_of_int [of "k * 100"] by simp
  then show ?thesis by (simp add: round2_def)
qed

lemma round2_idem: "round2 (round2 x) = round2 x"
proof -
  have "round_half_even (round2 x * 100) = round_half_even (x * 100)"
    using round_half_even_of_int [of "round_half_even (x * 100)"] by (simp add: round2_def)
  then show ?thesis by (simp add: round2_def)
qed

lemma round2_in_percent_range:
  "in_percent_range x \<Longrightarrow> in_percent_range (round2 x)"
  using round2_mono [of 0 x] round2_mono [of x 100] round2_of_int [of 0] round2_of_int [of 100]
  by (simp add: in_percent_range_def)

section \<open>Random draws stay in range\<close>

lemma next_unit_range: "next_unit g = (u, g') \<Longrightarrow> 0 \<le> u \<and> u < 1"
  by (auto simp: next_unit_def frac_lt_1)

lemma unit_index_less:
  fixes u :: rat
  assumes "0 \<le> u" "u < 1" "0 < n"
  shows "nat \<lfloor>u * of_nat n\<rfloor> < n"
proof -
  have "u * of_nat n < of_nat n" using assms by simp
  then have "\<lfloor>u * of_nat n\<rfloor> < int n" by (simp add: floor_less_iff)
  moreover have "0 \<le> \<lfloor>u * of_nat n\<rfloor>" using assms by simp
  ultimately show ?thesis by linarith
qed

lemma rng_integers_range:
  assumes "rng_integers 0 (int m + 1) g = (k, g')"
  shows "0 \<le> k \<and> k \<le> int m"
proof -
  obtain u where u: "next_unit g = (u, g')" and k: "k = \<lfloor>u * of_int (int m + 1)\<rfloor>"
    using assms by (auto simp: rng_integers_def split: prod.splits)
  have r: "0 \<le> u" "u < 1" using next_unit_range [OF u] by simp_all
  have "nat \<lfloor>u * of_nat (Suc m)\<rfloor> < Suc m" using unit_index_less [OF r, of "Suc m"] by simp
  moreover have "0 \<le> \<lfloor>u * of_nat (Suc m)\<rfloor>" using r by simp
  moreover have "u * of_int (int m + 1) = u * of_nat (Suc m)" by simp
  ultimately show ?thesis unfolding k by linarith
qed

lemma rng_choice_mem: "rng_choice xs g = Inr (x, g') \<Longrightarrow> x \<in> set xs"
proof -
  assume a: "rng_choice xs g = Inr (x, g')"
  then have ne: "xs \<noteq> []" by (auto simp: rng_choice_def)
  obtain u where u: "next_unit g = (u, g')" and x: "x = xs ! nat \<lfloor>u * of_nat (length xs)\<rfloor>"
    using a ne by (auto simp: rng_choice_def split: prod.splits)
  have "nat \<lfloor>u * of_nat (length xs)\<rfloor> < length xs"
    using unit_index_less [of u "length xs"] next_unit_range [OF u] ne by simp
  then show ?thesis unfolding x by simp
qed

lemma rng_choice_returns: "xs \<noteq> [] \<Longrightarrow> \<exists>x g'. rng_choice xs g = Inr (x, g')"
  by (auto simp: rng_choice_def split: prod.splits)

section \<open>Edges and nodes of the graph operations\<close>

lemma degree_pos_iff: "1 \<le> in_degree g n + out_degree g n \<longleftrightarrow> incident g n"
proof -
  have "1 \<le> length a + length b \<longleftrightarrow> a \<noteq> [] \<or> b \<noteq> []" for a b :: "(string \<times> string) list"
    by (cases a; cases b) simp_all
  then show ?thesis
    unfolding in_degree_def out_degree_def incident_def by (auto simp: filter_empty_conv)
qed

lemma add_node_simps:
  "edge_list (add_node n g) = edge_list g"
  "set (nodes (add_node n g)) = insert n (set (nodes g))"
  by (auto simp: add_node_def)

lemma add_edge_edges: "set (edge_list (add_edge u v g)) = insert (u, v) (set (edge_list g))"
  by (auto simp: add_edge_def Let_def add_node_simps)

lemma add_edge_nodes: "set (nodes (add_edge u v g)) = insert u (insert v (set (nodes g)))"
  by (auto simp: add_edge_def Let_def add_node_simps)

lemma add_edge_loop_free: "u \<noteq> v \<Longrightarrow> loop_free g \<Longrightarrow> loop_free (add_edge u v g)"
  by (auto simp: loop_free_def add_edge_edges)

lemma add_edge_covered: "covered_except (insert v S) g \<Longrightarrow> covered_except S (add_edge u v g)"
  by (auto simp: covered_except_def incident_def add_edge_edges add_edge_nodes)

lemma add_chosen_loop_free: "loop_free g \<Longrightarrow> loop_free (add_chosen service chosen g)"
  unfolding add_chosen_def
  by (induction chosen arbitrary: g) (auto simp: add_edge_loop_free)

lemma add_nodes_from_edges: "edge_list (add_nodes_from ns g) = edge_list g"
  unfolding add_nodes_from_def
  by (induction ns arbitrary: g) (auto simp: add_node_simps)

lemma draw_edges_loop_free:
  "draw_edges settings service graph g = Inr (graph', g') \<Longrightarrow> loop_free graph \<Longrightarrow> loop_free graph'"
  by (auto simp: draw_edges_def Let_def add_chosen_loop_free split: if_splits prod.splits sum.splits)

lemma draw_all_edges_loop_free:
  "draw_all_edges settings names graph g = Inr (graph', g') \<Longrightarrow> loop_free graph \<Longrightarrow> loop_free graph'"
proof (induction names arbitrary: graph g)
  case Nil
  then show ?case by simp
next
  case (Cons service rest)
  then show ?case
    by (auto split: sum.splits dest: draw_edges_loop_free)
qed

lemma repair_isolated_loop_free:
  "repair_isolated names isolated graph g = Inr (graph', g') \<Longrightarrow> loop_free graph \<Longrightarrow> loop_free graph'"
proof (induction isolated arbitrary: graph g)
  case Nil
  then show ?case by simp
next
  case (Cons node rest)
  from Cons.prems obtain other g1 where
    c: "rng_choice (filter (\<lambda>n. n \<noteq> node) names) g = Inr (other, g1)" and
    r: "repair_isolated names rest (add_edge other node graph) g1 = Inr (graph', g')"
    by (auto split: sum.splits)
  have "other \<noteq> node" using rng_choice_mem [OF c] by simp
  then have "loop_free (add_edge other node graph)" using Cons.prems(2) by (rule add_edge_loop_free)
  then show ?case using Cons.IH [OF r] by simp
qed

lemma repair_isolated_covered:
  "repair_isolated names isolated graph g = Inr (graph', g') \<Longrightarrow> covered_except (set isolated \<union> S) graph
    \<Longrightarrow> covered_except S graph'"
proof (induction isolated arbitrary: graph g)
  case Nil
  then show ?case by simp
next
  case (Cons node rest)
  from Cons.prems obtain other g1 where
    r: "repair_isolated names rest (add_edge other node graph) g1 = Inr (graph', g')"
    by (auto split: sum.splits)
  have "covered_except (insert node (set rest \<union> S)) graph" using Cons.prems(2) by simp
  then have "covered_except (set rest \<union> S) (add_edge other node graph)" by (rule add_edge_covered)
  then show ?case using Cons.IH [OF r] by simp
qed

lemma isolates_covered: "covered_except (set (isolates g)) g"
proof -
  have "(in_degree g n = 0 \<and> out_degree g n = 0) \<or> incident g n" for n
    using degree_pos_iff [of g n] by auto
  then show ?thesis unfolding covered_except_def isolates_def by auto
qed

lemma generate_loop_free:
  assumes "generate_dependency_graph settings g = Inr (graph, g')"
  shows "loop_free graph"
proof -
  let ?g0 = "add_nodes_from (service_names settings) empty_graph"
  from assms obtain graph1 g1 where
    d: "draw_all_edges settings (service_names settings) ?g0 g = Inr (graph1, g1)" and
    r: "repair_isolated (service_names settings) (isolates graph1) graph1 g1 = Inr (graph, g')"
    by (auto simp: generate_dependency_graph_def Let_def split: sum.splits)
  have "loop_free ?g0" by (simp add: loop_free_def add_nodes_from_edges empty_graph_def)
  then have "loop_free graph1" using draw_all_edges_loop_free [OF d] by simp
  then show ?thesis using repair_isolated_loop_free [OF r] by simp
qed

lemma generate_covered:
  assumes "generate_dependency_graph settings g = Inr (graph, g')"
  shows "covered_except {} graph"
proof -
  from assms obtain graph1 g1 where
    r: "repair_isolated (service_names settings) (isolates graph1) graph1 g1 = Inr (graph, g')"
    by (auto simp: generate_dependency_graph_def Let_def split: sum.splits)
  show ?thesis using repair_isolated_covered [OF r, of "{}"] isolates_covered [of graph1] by simp
qed

section \<open>The generator returns\<close>

lemma draw_edges_returns: "\<exists>graph' g'. draw_edges settings service graph g = Inr (graph', g')"
proof -
  let ?c = "dict_get (dependency_candidates settings) service []"
  let ?m = "max 1 (length ?c div 2)"
  obtain k g1 where k: "rng_integers 0 (int ?m + 1) g = (k, g1)" by force
  show ?thesis
  proof (cases "?c = []")
    case True
    then show ?thesis by (simp add: draw_edges_def)
  next
    case False
    have "k \<le> int ?m" using rng_integers_range [OF k] by simp
    moreover have "?m \<le> length ?c" using False by (cases ?c) auto
    ultimately have "\<not> length ?c < nat k" by linarith
    then show ?thesis using False k
      by (auto simp: draw_edges_def Let_def rng_choice_no_replace_def split: prod.splits)
  qed
qed

lemma draw_all_edges_returns:
  "\<exists>graph' g'. draw_all_edges settings names graph g = Inr (graph', g')"
proof (induction names arbitrary: graph g)
  case Nil
  then show ?case by simp
next
  case (Cons service rest)
  obtain graph1 g1 where "draw_edges settings service graph g = Inr (graph1, g1)"
    using draw_edges_returns by blast
  then show ?case using Cons.IH [of graph1 g1] by simp
qed

lemma repair_isolated_returns:
  assumes "2 \<le> card (set names)"
  shows "\<exists>graph' g'. repair_isolated names isolated graph g = Inr (graph', g')"
proof (induction isolated arbitrary: graph g)
  case Nil
  then show ?case by simp
next
  case (Cons node rest)
  have "set names - {node} \<noteq> {}"
  proof
    assume "set names - {node} = {}"
    then have "set names \<subseteq> {node}" by blast
    then have "card (set names) \<le> card {node}" by (intro card_mono) simp_all
    with assms show False by simp
  qed
  then have "filter (\<lambda>n. n \<noteq> node) names \<noteq> []"
    by (auto simp: filter_empty_conv)
  then obtain other g1 where "rng_choice (filter (\<lambda>n. n \<noteq> node) names) g = Inr (other, g1)"
    using rng_choice_returns by blast
  then show ?case using Cons.IH [of "add_edge other node graph" g1] by simp
qed

lemma generate_returns:
  assumes "2 \<le> card (set (service_names settings))"
  shows "\<exists>graph g'. generate_dependency_graph settings g = Inr (graph, g')"
proof -
  obtain graph1 g1 where
    "draw_all_edges settings (service_names settings)
       (add_nodes_from (service_names settings) empty_graph) g = Inr (graph1, g1)"
    using draw_all_edges_returns by blast
  then show ?thesis
    using repair_isolated_returns [OF assms, of "isolates graph1" graph1 g1]
    by (auto simp: generate_dependency_graph_def Let_def)
qed

section \<open>Metrics of one service\<close>





lemma clamp_in_percent_range: "in_percent_range (clamp_0_100 x)"
  by (simp add: clamp_0_100_def in_percent_range_def)

lemma normalise_in_percent_range: "in_percent_range (normalise_to_percentage v)"
  by (simp add: normalise_to_percentage_def in_percent_range_def)

lemma build_service_metrics_fields:
  assumes "build_service_metrics service md = Inr m"
  shows "service_name m = service"
    and "dependency_impact_score m = round2 (m_dependency_impact_score md)"
    and "rollback_rate m = round2 (m_rollback_rate md)"
    and "change_frequency m = round2 (m_change_frequency md)"
    and "error_spike_history m = round2 (m_error_spike_history md)"
    and "latency_instability m = round2 (m_latency_instability md)"
    and "risk_score m = round2 (clamp_0_100 (weighted_sum (m_dependency_impact_score md)
           (m_rollback_rate md) (m_change_frequency md) (m_error_spike_history md)
           (m_latency_instability md)))"
    and "decision m = classify_risk (risk_score m)"
    and "in_percent_range (risk_score m)"
  using assms
  by (auto simp: build_service_metrics_def new_ServiceMetrics_def Let_def split: if_splits)

lemma build_service_metrics_returns:
  assumes "in_percent_range (m_dependency_impact_score md)" "in_percent_range (m_rollback_rate md)"
    "in_percent_range (m_change_frequency md)" "in_percent_range (m_error_spike_history md)"
    "in_percent_range (m_latency_instability md)"
  shows "\<exists>m. build_service_metrics service md = Inr m"
  using assms round2_in_percent_range clamp_in_percent_range
  by (simp add: build_service_metrics_def new_ServiceMetrics_def Let_def)


lemma rng_uniform_range:
  assumes "rng_uniform 0 100 g = (x, g')"
  shows "in_percent_range x"
proof -
  have "0 \<le> frac (shd g)" "frac (shd g) < 1" by (simp_all add: frac_lt_1)
  moreover have "x = 100 * frac (shd g)" using assms by (simp add: rng_uniform_def next_unit_def)
  ultimately show ?thesis by (simp add: in_percent_range_def)
qed

lemma service_metrics_of_built:
  assumes "service_metrics_of bc graph blocked service g = Inr (m, g')"
  shows "\<exists>cf es li. build_service_metrics service
           \<lparr>m_dependency_impact_score = dependency_score_of bc graph service,
            m_rollback_rate = rollback_signal blocked service (fst (rng_uniform 0 100 g)),
            m_change_frequency = round2 cf, m_error_spike_history = round2 es,
            m_latency_instability = round2 li\<rparr> = Inr m"
  using assms
  by (auto simp: service_metrics_of_def Let_def split: prod.splits sum.splits)

lemma service_metrics_of_returns:
  "\<exists>m g'. service_metrics_of bc graph blocked service g = Inr (m, g')"
proof -
  obtain raw g1 where 1: "rng_uniform 0 100 g = (raw, g1)" by force
  obtain cf g2 where 2: "rng_uniform 0 100 g1 = (cf, g2)" by force
  obtain es g3 where 3: "rng_uniform 0 100 g2 = (es, g3)" by force
  obtain li g4 where 4: "rng_uniform 0 100 g3 = (li, g4)" by force
  let ?md = "\<lparr>m_dependency_impact_score = dependency_score_of bc graph service,
            m_rollback_rate = rollback_signal blocked service raw,
            m_change_frequency = round2 cf, m_error_spike_history = round2 es,
            m_latency_instability = round2 li\<rparr>"
  have "\<exists>m. build_service_metrics service ?md = Inr m"
    using rng_uniform_range [OF 2] rng_uniform_range [OF 3] rng_uniform_range [OF 4]
    by (intro build_service_metrics_returns)
       (simp_all add: dependency_score_of_def rollback_signal_def Let_def
          normalise_in_percent_range round2_in_percent_range)
  then show ?thesis using 1 2 3 4 by (auto simp: service_metrics_of_def Let_def)
qed

lemma metrics_loop_built:
  "metrics_loop bc graph blocked names g = Inr (ms, g') \<Longrightarrow> m \<in> set ms
    \<Longrightarrow> \<exists>service g1 g2. service_metrics_of bc graph blocked service g1 = Inr (m, g2)"
proof (induction names arbitrary: g ms)
  case Nil
  then show ?case by simp
next
  case (Cons service rest)
  from Cons.prems(1) obtain m0 g1 ms' where
    a: "service_metrics_of bc graph blocked service g = Inr (m0, g1)" and
    b: "metrics_loop bc graph blocked rest g1 = Inr (ms', g')" and c: "ms = m0 # ms'"
    by (auto split: sum.splits)
  show ?case
  proof (cases "m = m0")
    case True
    then show ?thesis using a by blast
  next
    case False
    then have "m \<in> set ms'" using Cons.prems(2) c by simp
    then show ?thesis using Cons.IH [OF b] by blast
  qed
qed

lemma metrics_loop_returns:
  "\<exists>ms g'. metrics_loop bc graph blocked names g = Inr (ms, g') \<and> length ms = length names"
proof (induction names arbitrary: g)
  case Nil
  then show ?case by simp
next
  case (Cons service rest)
  obtain m g1 where a: "service_metrics_of bc graph blocked service g = Inr (m, g1)"
    using service_metrics_of_returns by blast
  obtain ms g2 where "metrics_loop bc graph blocked rest g1 = Inr (ms, g2)" "length ms = length rest"
    using Cons.IH by blast
  then show ?case using a by simp
qed

lemma generate_service_metrics_built:
  assumes "generate_service_metrics bc graph blocked g = Inr (ms, g')" "m \<in> set ms"
  shows "\<exists>md. build_service_metrics (service_name m) md = Inr m
           \<and> change_frequency m = m_change_frequency md
           \<and> error_spike_history m = m_error_spike_history md
           \<and> latency_instability m = m_latency_instability md"
proof -
  from assms obtain ms0 where l: "metrics_loop bc graph blocked (nodes graph) g = Inr (ms0, g')"
    and "ms = sort_key service_name ms0"
    by (auto simp: generate_service_metrics_def Let_def split: sum.splits)
  then have "m \<in> set ms0" using assms(2) by simp
  from metrics_loop_built [OF l this] obtain service g1 g2 where
    "service_metrics_of bc graph blocked service g1 = Inr (m, g2)" by blast
  from service_metrics_of_built [OF this] obtain md cf es li where
    b: "build_service_metrics service md = Inr m" and
    md: "m_change_frequency md = round2 cf" "m_error_spike_history md = round2 es"
      "m_latency_instability md = round2 li"
    by force
  note f = build_service_metrics_fields [OF b]
  show ?thesis using b f(1) f(4-6) md by (auto simp: round2_idem)
qed

lemma generate_service_metrics_returns:
  "\<exists>ms g'. generate_service_metrics bc graph blocked g = Inr (ms, g') \<and> length ms = length (nodes graph)"
  using metrics_loop_returns [of bc graph blocked "nodes graph" g]
  by (auto simp: generate_service_metrics_def Let_def)

section \<open>Ledger\<close>

lemma py_slice_from_neg_eq:
  "1 \<le> n \<Longrightarrow> py_slice_from_neg n xs = drop (length xs - nat n) xs"
  by (auto simp: py_slice_from_neg_def Let_def max_def nat_diff_distrib')

lemma record_history_eq:
  "1 \<le> n \<Longrightarrow> record_history n h e = drop (Suc (length h) - nat n) (h @ [e])"
  by (auto simp: record_history_def Let_def py_slice_from_neg_eq)

lemma update_history_eq:
  "update_history settings h e = record_history (history_limit settings) h e"
  by (simp add: update_history_def record_history_def)

lemma drop_tail_compose:
  fixes xs :: "'a list"
  assumes "k = Suc lh - m" "length xs = Suc (lh + le)"
  shows "drop (length (drop k xs) - m) (drop k xs) = drop (length xs - m) xs"
proof -
  have "length xs - k - m + k = length xs - m" using assms by arith
  then show ?thesis by (simp only: drop_drop length_drop)
qed

lemma foldl_record_history_short:
  assumes "1 \<le> n"
  shows "length h \<le> nat n \<Longrightarrow>
    foldl (record_history n) h es = drop (length (h @ es) - nat n) (h @ es)"
proof (induction es arbitrary: h)
  case Nil
  then show ?case by simp
next
  case (Cons e es)
  let ?k = "Suc (length h) - nat n"
  let ?h1 = "drop ?k (h @ [e])"
  have h1: "record_history n h e = ?h1" using assms by (rule record_history_eq)
  have len: "length ?h1 \<le> nat n" using Cons.prems by simp
  have "Suc 0 - nat n = 0" using assms by simp
  then have app: "?h1 @ es = drop ?k (h @ e # es)" by simp
  have "foldl (record_history n) h (e # es) = foldl (record_history n) ?h1 es" by (simp add: h1)
  also have "\<dots> = drop (length (?h1 @ es) - nat n) (?h1 @ es)" using Cons.IH [OF len] .
  also have "\<dots> = drop (length (h @ e # es) - nat n) (h @ e # es)"
    unfolding app
    by (rule drop_tail_compose [where lh = "length h" and le = "length es"]) simp_all
  finally show ?case .
qed

lemma foldl_record_history:
  assumes "1 \<le> n" "es \<noteq> [] \<or> length h \<le> nat n"
  shows "foldl (record_history n) h es = drop (length (h @ es) - nat n) (h @ es)"
proof (cases "length h \<le> nat n")
  case True
  then show ?thesis using foldl_record_history_short [OF assms(1)] by blast
next
  case False
  with assms(2) obtain e es' where es: "es = e # es'" by (cases es) auto
  let ?k = "Suc (length h) - nat n"
  let ?h1 = "drop ?k (h @ [e])"
  have h1: "record_history n h e = ?h1" using assms(1) by (rule record_history_eq)
  have len: "length ?h1 \<le> nat n" using assms(1) by simp
  have "Suc 0 - nat n = 0" using assms(1) by simp
  then have app: "?h1 @ es' = drop ?k (h @ e # es')" by simp
  have "foldl (record_history n) h es = foldl (record_history n) ?h1 es'" by (simp add: es h1)
  also have "\<dots> = drop (length (?h1 @ es') - nat n) (?h1 @ es')"
    using foldl_record_history_short [OF assms(1) len] .
  also have "\<dots> = drop (length (h @ es) - nat n) (h @ es)"
    unfolding app es
    by (rule drop_tail_compose [where lh = "length h" and le = "length es'"]) simp_all
  finally show ?thesis .
qed

lemma st_history_storage_record:
  "st_history (storage_record settings st e r) = record_history (history_limit settings) (st_history st) e"
  by (simp add: storage_record_def Let_def split: option.splits)

lemma st_history_record_all:
  "st_history (record_all settings st es) = foldl (record_history (history_limit settings)) (st_history st) es"
  unfolding record_all_def
  by (induction es arbitrary: st) (simp_all add: st_history_storage_record)

section \<open>Summary\<close>





section \<open>The worked run, step by step\<close>

lemma next_unit_SCons: "next_unit (x ## s) = (frac x, s)"
  by (simp add: next_unit_def)

lemma rng_uniform_SCons: "rng_uniform 0 100 (x ## s) = (100 * frac x, s)"
  by (simp add: rng_uniform_def next_unit_SCons)

lemma frac_numeral_div:
  "frac (numeral a / numeral b :: rat) = numeral a / numeral b - of_int (numeral a div numeral b)"
  by (simp add: frac_def floor_numeral_div)

lemma frac_one_div: "frac (1 / numeral b :: rat) = 1 / numeral b - of_int (1 div numeral b)"
  by (simp add: frac_def floor_one_div_numeral)

lemmas floor_evals = floor_numeral_div floor_one_div_numeral frac_numeral_div frac_one_div

lemma example_names: "service_names example_settings = [''b'', ''a'', ''c'']"
  by (simp add: example_settings_def)

lemma example_draw_b: "draw_edges example_settings ''b'' graph g = Inr (graph, g)"
  by (simp add: draw_edges_def example_settings_def dict_get_def)

lemma example_draw_c: "draw_edges example_settings ''c'' graph g = Inr (graph, g)"
  by (simp add: draw_edges_def example_settings_def dict_get_def)

lemma example_draw_a:
  "draw_edges example_settings ''a'' graph (1 / 2 ## 0 ## s) = Inr (add_edge ''b'' ''a'' graph, s)"
  by (simp add: draw_edges_def example_settings_def dict_get_def rng_integers_def next_unit_SCons
      floor_evals rng_choice_no_replace_def add_chosen_def)

lemma example_nodes:
  "add_nodes_from [''b'', ''a'', ''c''] empty_graph = \<lparr>nodes = [''b'', ''a'', ''c''], edge_list = []\<rparr>"
  by (simp add: add_nodes_from_def add_node_def empty_graph_def)

lemma example_first_edge:
  "add_edge ''b'' ''a'' \<lparr>nodes = [''b'', ''a'', ''c''], edge_list = []\<rparr>
     = \<lparr>nodes = [''b'', ''a'', ''c''], edge_list = [(''b'', ''a'')]\<rparr>"
  by (simp add: add_edge_def add_node_def)

lemma example_isolates:
  "isolates \<lparr>nodes = [''b'', ''a'', ''c''], edge_list = [(''b'', ''a'')]\<rparr> = [''c'']"
  by (simp add: isolates_def in_degree_def out_degree_def)

lemma example_repair:
  "repair_isolated [''b'', ''a'', ''c''] [''c'']
     \<lparr>nodes = [''b'', ''a'', ''c''], edge_list = [(''b'', ''a'')]\<rparr> (3 / 4 ## s)
   = Inr (example_graph, s)"
  by (simp add: rng_choice_def next_unit_SCons floor_evals add_edge_def add_node_def
      example_graph_def)

lemma example_generate:
  "generate_dependency_graph example_settings example_stream = Inr (example_graph, example_signals)"
  by (simp add: generate_dependency_graph_def example_stream_def example_names example_draw_a
      example_draw_b example_draw_c example_nodes example_first_edge example_isolates
      example_repair del: repair_isolated.simps)

lemma example_in_degrees:
  "in_degree example_graph ''b'' = 0" "in_degree example_graph ''a'' = 1"
  "in_degree example_graph ''c'' = 1" "max_in_degree example_graph = 1"
  by (simp_all add: in_degree_def max_in_degree_def example_graph_def)

lemma example_dependency_scores:
  "dependency_score_of (betweenness_centrality example_lib) example_graph ''b'' = 0"
  "dependency_score_of (betweenness_centrality example_lib) example_graph ''a'' = 70"
  "dependency_score_of (betweenness_centrality example_lib) example_graph ''c'' = 40"
  by (simp_all add: dependency_score_of_def example_lib_def example_in_degrees
      normalise_to_percentage_def)

lemma round2_int_evals:
  "round2 0 = 0" "round2 99 = 99" "round2 50 = 50" "round2 70 = 70" "round2 40 = 40"
  "round2 46 = 46"
  using round2_of_int [of 0] round2_of_int [of 99] round2_of_int [of 50] round2_of_int [of 70]
    round2_of_int [of 40] round2_of_int [of 46]
  by simp_all

lemma round2_evals:
  "round2 (25003 / 500) = 5001 / 100"
  "round2 (1 / 100) = 1 / 100"
  "round2 (1 / 50) = 1 / 50"
  "round2 (100047 / 10000) = 10"
  "round2 (437 / 5) = 437 / 5"
  "round2 (239 / 5) = 239 / 5"
  by (simp_all add: round2_def round_half_even_def floor_evals)

lemmas build_evals = build_service_metrics_def weighted_sum_def clamp_0_100_def round2_evals
  round2_int_evals classify_risk_def new_ServiceMetrics_def in_percent_range_def

lemma example_build_b:
  "build_service_metrics ''b''
     \<lparr>m_dependency_impact_score = 0, m_rollback_rate = 25003 / 500,
      m_change_frequency = 1 / 100, m_error_spike_history = 0,
      m_latency_instability = 1 / 50\<rparr> = Inr example_b"
  by (simp add: build_evals example_b_def)

lemma example_build_a:
  "build_service_metrics ''a''
     \<lparr>m_dependency_impact_score = 70, m_rollback_rate = 99,
      m_change_frequency = 99, m_error_spike_history = 99,
      m_latency_instability = 99\<rparr> = Inr example_a"
  by (simp add: build_evals example_a_def)

lemma example_build_c:
  "build_service_metrics ''c''
     \<lparr>m_dependency_impact_score = 40, m_rollback_rate = 50,
      m_change_frequency = 50, m_error_spike_history = 50,
      m_latency_instability = 50\<rparr> = Inr example_c"
  by (simp add: build_evals example_c_def)

lemmas service_evals = service_metrics_of_def example_dependency_scores rng_uniform_SCons
  floor_evals rollback_signal_def normalise_to_percentage_def round2_evals round2_int_evals

lemma example_metrics_b:
  "service_metrics_of (betweenness_centrality example_lib) example_graph {} ''b''
     (25003 / 50000 ## 1 / 10000 ## 0 ## 1 / 5000 ## s) = Inr (example_b, s)"
  by (simp add: service_evals example_build_b)

lemma example_metrics_a:
  "service_metrics_of (betweenness_centrality example_lib) example_graph {} ''a''
     (99 / 100 ## 99 / 100 ## 99 / 100 ## 99 / 100 ## s) = Inr (example_a, s)"
  by (simp add: service_evals example_build_a)

lemma example_metrics_c:
  "service_metrics_of (betweenness_centrality example_lib) example_graph {} ''c''
     (1 / 2 ## 1 / 2 ## 1 / 2 ## 1 / 2 ## s) = Inr (example_c, s)"
  by (simp add: service_evals example_build_c)

lemma example_sorted:
  "sort_key service_name [example_b, example_a, example_c] = [example_a, example_b, example_c]"
  by (simp add: example_a_def example_b_def example_c_def)

lemma example_metrics_loop:
  "metrics_loop (betweenness_centrality example_lib) example_graph {} [''b'', ''a'', ''c'']
     example_signals = Inr ([example_b, example_a, example_c], sconst 0)"
  by (simp add: example_signals_def example_metrics_a example_metrics_b example_metrics_c)

lemma example_metrics:
  "generate_service_metrics (betweenness_centrality example_lib) example_graph {} example_signals
     = Inr ([example_a, example_b, example_c], sconst 0)"
proof -
  have "nodes example_graph = [''b'', ''a'', ''c'']" by (simp add: example_graph_def)
  then show ?thesis
    by (simp add: generate_service_metrics_def example_metrics_loop example_sorted
        del: sort_key_simps metrics_loop.simps)
qed

lemma example_summarise:
  "summarise_services 7 [example_a, example_b, example_c] = Inr example_summary"
  by (simp add: summarise_services_def py_max_by_def new_SimulationSummary_def
      in_percent_range_def example_a_def example_b_def example_c_def round2_evals
      example_summary_def)

lemma example_edges: "graph_edges example_graph = [(''b'', ''a''), (''a'', ''c'')]"
  by (simp add: graph_edges_def example_graph_def)

lemma example_run:
  "run_simulation example_lib example_settings example_world [] seed = Inr example_result"
proof -
  have "(case seed of None \<Rightarrow> os_entropy example_world | Some s \<Rightarrow> default_rng example_lib s)
      = example_stream"
    by (simp add: example_world_def example_lib_def split: option.splits)
  moreover have "collect_blocked_services [] = {}" by (simp add: collect_blocked_services_def)
  moreover have "utc_now example_world = 7" by (simp add: example_world_def)
  ultimately show ?thesis
    by (simp add: run_simulation_def example_generate example_metrics example_summarise
        example_edges example_result_def)
qed

section \<open>The parts of a run\<close>

lemma run_simulation_parts:
  assumes "run_simulation lib settings world history seed = Inr result"
  shows "\<exists>graph g1 g2.
     generate_dependency_graph settings
       (case seed of None \<Rightarrow> os_entropy world | Some s \<Rightarrow> default_rng lib s) = Inr (graph, g1)
     \<and> generate_service_metrics (betweenness_centrality lib) graph
         (collect_blocked_services history) g1 = Inr (services result, g2)
     \<and> summarise_services (utc_now world) (services result) = Inr (summary result)
     \<and> edges result = map (\<lambda>(u, v). \<lparr>source = u, target = v\<rparr>) (graph_edges graph)"
  using assms
  by (auto simp: run_simulation_def Let_def split: sum.splits prod.splits)

lemma run_services_built:
  assumes "run_simulation lib settings world history seed = Inr result" "m \<in> set (services result)"
  shows "\<exists>md. build_service_metrics (service_name m) md = Inr m
           \<and> change_frequency m = m_change_frequency md
           \<and> error_spike_history m = m_error_spike_history md
           \<and> latency_instability m = m_latency_instability md"
  using run_simulation_parts [OF assms(1)] generate_service_metrics_built [OF _ assms(2)]
  by blast

lemma graph_edges_subset: "set (graph_edges g) \<subseteq> set (edge_list g)"
  by (auto simp: graph_edges_def)

section \<open>History feedback\<close>

text \<open>
  C5: the blocked set of an empty snapshot is empty; the blocked set of a snapshot that ends
  with the record \<open>latest\<close> is the set of the names of the services of \<open>latest\<close> whose decision
  is BlockDeployment, whatever records come before it.
\<close>

theorem collect_blocked_services_latest:
  "collect_blocked_services [] = {}
   \<and> collect_blocked_services (earlier @ [latest]) =
       {service_name m | m. m \<in> set (hr_services latest) \<and> decision m = BLOCK_DEPLOYMENT}"
  by (auto simp: collect_blocked_services_def)

section \<open>The risk score and the stored signals\<close>




section \<open>Decision thresholds\<close>

text \<open>
  C2: for every run and every service of its result, the decision is the classification of
  the stored risk score: AutoApprove exactly below 40, ManualReview exactly from 40 up to but
  not including 70, BlockDeployment exactly from 70 on; 39.99 gives AutoApprove, 40.00 and
  69.99 give ManualReview, 70.00 gives BlockDeployment.
\<close>

theorem decision_follows_thresholds:
  assumes "run_simulation lib settings world history seed = Inr result"
    and "m \<in> set (services result)"
  shows "decision m = classify_risk (risk_score m)
       \<and> (decision m = AUTO_APPROVE \<longleftrightarrow> risk_score m < 40)
       \<and> (decision m = MANUAL_REVIEW \<longleftrightarrow> 40 \<le> risk_score m \<and> risk_score m < 70)
       \<and> (decision m = BLOCK_DEPLOYMENT \<longleftrightarrow> 70 \<le> risk_score m)
       \<and> (classify_risk s = AUTO_APPROVE \<longleftrightarrow> s < 40)
       \<and> (classify_risk s = MANUAL_REVIEW \<longleftrightarrow> 40 \<le> s \<and> s < 70)
       \<and> (classify_risk s = BLOCK_DEPLOYMENT \<longleftrightarrow> 70 \<le> s)
       \<and> classify_risk 39.99 = AUTO_APPROVE
       \<and> classify_risk 40.00 = MANUAL_REVIEW
       \<and> classify_risk 69.99 = MANUAL_REVIEW
       \<and> classify_risk 70.00 = BLOCK_DEPLOYMENT"
proof -
  from run_services_built [OF assms] obtain md where
    "build_service_metrics (service_name m) md = Inr m" by blast
  then have "decision m = classify_risk (risk_score m)" by (rule build_service_metrics_fields)
  then show ?thesis by (simp add: classify_risk_def)
qed

theorem decision_follows_thresholds_witness:
  "run_simulation example_lib example_settings example_world [] None = Inr example_result
   \<and> example_a \<in> set (services example_result)
   \<and> decision example_a = BLOCK_DEPLOYMENT \<and> 70 \<le> risk_score example_a
   \<and> classify_risk (risk_score example_a) = BLOCK_DEPLOYMENT"
proof -
  have r: "run_simulation example_lib example_settings example_world [] None = Inr example_result"
    by (rule example_run)
  have m: "example_a \<in> set (services example_result)" by (simp add: example_result_def)
  have d: "decision example_a = BLOCK_DEPLOYMENT" by (simp add: example_a_def)
  have "decision example_a = classify_risk (risk_score example_a)"
    and "decision example_a = BLOCK_DEPLOYMENT \<longleftrightarrow> 70 \<le> risk_score example_a"
    using decision_follows_thresholds [OF r m, of 0] by blast+
  then show ?thesis using r m d by simp
qed

section \<open>The generated graph\<close>

text \<open>
  C3: with at least two distinct configured services, for every random stream the graph
  generator returns a graph in which every node has in-degree plus out-degree at least 1.
\<close>

theorem generated_graph_has_no_isolated_node:
  assumes "2 \<le> card (set (service_names settings))"
  shows "\<exists>graph g'. generate_dependency_graph settings g = Inr (graph, g')
           \<and> (\<forall>n \<in> set (nodes graph). 1 \<le> in_degree graph n + out_degree graph n)
           \<and> isolates graph = []"
proof -
  from generate_returns [OF assms] obtain graph g' where
    r: "generate_dependency_graph settings g = Inr (graph, g')" by blast
  have "incident graph n" if "n \<in> set (nodes graph)" for n
    using generate_covered [OF r] that by (simp add: covered_except_def)
  then have c: "\<forall>n \<in> set (nodes graph). 1 \<le> in_degree graph n + out_degree graph n"
    using degree_pos_iff by blast
  then have "isolates graph = []" by (auto simp: isolates_def filter_empty_conv)
  with r c show ?thesis by blast
qed

theorem generated_graph_has_no_isolated_node_witness:
  "2 \<le> card (set (service_names example_settings))
   \<and> generate_dependency_graph example_settings example_stream = Inr (example_graph, example_signals)
   \<and> list_all (\<lambda>n. 1 \<le> in_degree example_graph n + out_degree example_graph n)
         (nodes example_graph)
   \<and> isolates example_graph = []"
proof -
  have h: "2 \<le> card (set (service_names example_settings))" by (simp add: example_names)
  show ?thesis
    using h generated_graph_has_no_isolated_node [OF h, of example_stream] example_generate
    by (auto simp: list_all_iff)
qed

text \<open>
  C10: for every random stream and every configuration, a generated graph has no edge from a
  node to itself, in the graph and in the edge list of the run's result; with at least two
  distinct services the generator does return a graph.
\<close>

theorem generated_graph_has_no_self_loop:
  "(generate_dependency_graph settings g = Inr (graph, g') \<longrightarrow>
      (\<forall>e \<in> set (edge_list graph). fst e \<noteq> snd e)
      \<and> (\<forall>e \<in> set (graph_edges graph). fst e \<noteq> snd e))
   \<and> (run_simulation lib settings world history seed = Inr result \<longrightarrow>
        (\<forall>e \<in> set (edges result). source e \<noteq> target e))
   \<and> (2 \<le> card (set (service_names settings)) \<longrightarrow>
        (\<exists>graph1 g1. generate_dependency_graph settings g = Inr (graph1, g1)))"
proof (intro conjI impI)
  assume a: "generate_dependency_graph settings g = Inr (graph, g')"
  show "\<forall>e \<in> set (edge_list graph). fst e \<noteq> snd e"
    using generate_loop_free [OF a] by (simp add: loop_free_def)
  then show "\<forall>e \<in> set (graph_edges graph). fst e \<noteq> snd e"
    using graph_edges_subset [of graph] by blast
next
  assume "run_simulation lib settings world history seed = Inr result"
  from run_simulation_parts [OF this] obtain graph0 g0 where
    a: "generate_dependency_graph settings
       (case seed of None \<Rightarrow> os_entropy world | Some s \<Rightarrow> default_rng lib s) = Inr (graph0, g0)"
    and e: "edges result = map (\<lambda>(u, v). \<lparr>source = u, target = v\<rparr>) (graph_edges graph0)"
    by blast
  have "\<forall>e \<in> set (graph_edges graph0). fst e \<noteq> snd e"
    using generate_loop_free [OF a] graph_edges_subset [of graph0] by (auto simp: loop_free_def)
  then show "\<forall>e \<in> set (edges result). source e \<noteq> target e"
    unfolding e by auto
next
  assume "2 \<le> card (set (service_names settings))"
  then show "\<exists>graph1 g1. generate_dependency_graph settings g = Inr (graph1, g1)"
    by (rule generate_returns)
qed

theorem generated_graph_has_no_self_loop_witness:
  "generate_dependency_graph example_settings example_stream = Inr (example_graph, example_signals)
   \<and> run_simulation example_lib example_settings example_world [] (Some 5) = Inr example_result
   \<and> 2 \<le> card (set (service_names example_settings))
   \<and> list_all (\<lambda>e. fst e \<noteq> snd e) (edge_list example_graph)
   \<and> list_all (\<lambda>e. fst e \<noteq> snd e) (graph_edges example_graph)
   \<and> list_all (\<lambda>e. source e \<noteq> target e) (edges example_result)"
proof -
  have h: "2 \<le> card (set (service_names example_settings))" by (simp add: example_names)
  show ?thesis
    using h example_generate example_run [of "Some 5"]
      generated_graph_has_no_self_loop [of example_settings example_stream example_graph
        example_signals example_lib example_world "[]" "Some 5" example_result]
    by (simp add: list_all_iff)
qed

section \<open>The bounded ledger\<close>

text \<open>
  C4: with a capacity \<open>N\<close> in \<open>[1, 20]\<close> (the capacities the settings validator accepts),
  after any non-empty sequence of \<^verbatim>\<open>record()\<close> calls (and after any sequence at all on a
  ledger of length at most \<open>N\<close>) the ledger has at most
  \<open>N\<close> entries and is the old ledger followed by the new entries with the front dropped; after
  \<open>N\<close> calls or more (so after \<open>N + 1\<close>) it holds exactly the last \<open>N\<close> entries recorded, in their
  order, newest last. One call appends and drops from the front, and \<^verbatim>\<open>update_history\<close> of the
  engine computes the same list.
\<close>

theorem ledger_bounded_fifo:
  assumes "1 \<le> history_limit settings" "history_limit settings \<le> 20"
  shows "(entries \<noteq> [] \<or> length (st_history st) \<le> nat (history_limit settings) \<longrightarrow>
           length (st_history (record_all settings st entries)) \<le> nat (history_limit settings)
           \<and> st_history (record_all settings st entries) =
               drop (length (st_history st @ entries) - nat (history_limit settings))
                 (st_history st @ entries))
       \<and> (nat (history_limit settings) \<le> length entries \<longrightarrow>
            st_history (record_all settings st entries) =
              drop (length entries - nat (history_limit settings)) entries
            \<and> length (st_history (record_all settings st entries)) = nat (history_limit settings))
       \<and> st_history (storage_record settings st entry result) =
            drop (Suc (length (st_history st)) - nat (history_limit settings)) (st_history st @ [entry])
       \<and> update_history settings (st_history st) entry =
            st_history (storage_record settings st entry result)
       \<and> validate_history_limit (history_limit settings) = Inr (history_limit settings)"
proof -
  let ?n = "history_limit settings"
  have a: "st_history (record_all settings st entries) =
      drop (length (st_history st @ entries) - nat ?n) (st_history st @ entries)"
    if "entries \<noteq> [] \<or> length (st_history st) \<le> nat ?n"
    using foldl_record_history [OF assms(1) that] by (simp add: st_history_record_all)
  have b: "length (st_history (record_all settings st entries)) \<le> nat ?n"
    if "entries \<noteq> [] \<or> length (st_history st) \<le> nat ?n"
    unfolding a [OF that] by simp
  have c: "st_history (record_all settings st entries) = drop (length entries - nat ?n) entries"
    if "nat ?n \<le> length entries"
  proof -
    have "entries \<noteq> []" using that assms(1) by auto
    then show ?thesis using a that by simp
  qed
  have d: "length (st_history (record_all settings st entries)) = nat ?n"
    if "nat ?n \<le> length entries"
    unfolding c [OF that] using that by simp
  have e: "validate_history_limit ?n = Inr ?n"
    using assms by (simp add: validate_history_limit_def)
  show ?thesis
    using a b c d e record_history_eq [OF assms(1)]
    by (simp add: st_history_storage_record update_history_eq)
qed

theorem ledger_bounded_fifo_witness:
  "1 \<le> history_limit example_settings \<and> history_limit example_settings \<le> 20
   \<and> length (st_history new_storage) \<le> nat (history_limit example_settings)
   \<and> nat (history_limit example_settings) + 1
        = length [example_entry 1, example_entry 2, example_entry 3]
   \<and> st_history (record_all example_settings new_storage
         [example_entry 1, example_entry 2, example_entry 3])
       = [example_entry 2, example_entry 3]
   \<and> length (st_history (record_all example_settings new_storage
         [example_entry 1, example_entry 2, example_entry 3])) = 2"
proof -
  have h: "1 \<le> history_limit example_settings" "history_limit example_settings \<le> 20"
    by (simp_all add: example_settings_def)
  have n: "nat (history_limit example_settings) = 2" by (simp add: example_settings_def)
  show ?thesis
    using h n
      ledger_bounded_fifo [OF h, of "[example_entry 1, example_entry 2, example_entry 3]"
        new_storage "example_entry 1" None]
    by (simp add: new_storage_def)
qed

section \<open>Dampening of blocked services\<close>



section \<open>Determinism\<close>

lemma summarise_services_error_clock:
  "summarise_services now1 svcs = Inl e \<longleftrightarrow> summarise_services now2 svcs = Inl e"
  by (auto simp: summarise_services_def new_SimulationSummary_def Let_def
      split: sum.splits if_splits)

text \<open>
  C7: two runs with the same integer seed and the same ledger snapshot give the same
  per-service metrics, in the same order, and the same edge list (or fail with the same
  error), whatever the clock and the unseeded random source are at each run.
\<close>

theorem run_determined_by_seed_and_snapshot:
  "map_sum id metrics_and_edges (run_simulation lib settings world1 history (Some seed))
   = map_sum id metrics_and_edges (run_simulation lib settings world2 history (Some seed))"
proof (cases "generate_dependency_graph settings (default_rng lib seed)")
  case (Inl e)
  then show ?thesis by (simp add: run_simulation_def)
next
  case (Inr p)
  obtain graph g1 where p: "p = (graph, g1)" by (cases p)
  show ?thesis
  proof (cases "generate_service_metrics (betweenness_centrality lib) graph
      (collect_blocked_services history) g1")
    case (Inl e)
    then show ?thesis using Inr p by (simp add: run_simulation_def)
  next
    case m: (Inr q)
    obtain svcs g2 where q: "q = (svcs, g2)" by (cases q)
    show ?thesis
    proof (cases "summarise_services (utc_now world1) svcs")
      case (Inl e)
      then have "summarise_services (utc_now world2) svcs = Inl e"
        using summarise_services_error_clock by blast
      then show ?thesis using Inr p m q Inl by (simp add: run_simulation_def)
    next
      case s1: (Inr s1)
      have "\<exists>s2. summarise_services (utc_now world2) svcs = Inr s2"
      proof (cases "summarise_services (utc_now world2) svcs")
        case (Inl e)
        then have "summarise_services (utc_now world1) svcs = Inl e"
          using summarise_services_error_clock by blast
        then show ?thesis using s1 by simp
      next
        case (Inr s2)
        then show ?thesis by blast
      qed
      then obtain s2 where "summarise_services (utc_now world2) svcs = Inr s2" by blast
      then show ?thesis using Inr p m q s1
        by (simp add: run_simulation_def metrics_and_edges_def)
    qed
  qed
qed

theorem run_determined_by_seed_and_snapshot_witness:
  "map_sum id metrics_and_edges
     (run_simulation example_lib example_settings example_world [] (Some 123))
   = map_sum id metrics_and_edges
       (run_simulation example_lib example_settings \<lparr>os_entropy = sconst 0, utc_now = 99\<rparr> []
          (Some 123))
   \<and> map_sum id metrics_and_edges
        (run_simulation example_lib example_settings example_world [] (Some 123))
      = Inr ([example_a, example_b, example_c],
             [\<lparr>source = ''b'', target = ''a''\<rparr>, \<lparr>source = ''a'', target = ''c''\<rparr>])"
  using run_determined_by_seed_and_snapshot [of example_lib example_settings example_world "[]"
      123 "\<lparr>os_entropy = sconst 0, utc_now = 99\<rparr>"]
    example_run [of "Some 123"]
  by (simp add: metrics_and_edges_def example_result_def)

section \<open>The run summary\<close>



section \<open>Lookup of a service by the deployment hook\<close>










end
